theory Spec2Isabelle
  imports Complex_Main "HOL-Library.AList"
begin

section \<open>Numbers, dictionaries and errors\<close>

text \<open>
  Each function is modelled twice where its arithmetic matters. The first model computes
  with \<^typ>\<open>real\<close> numbers: exact arithmetic, with no rounding, overflow, infinity
  or NaN, and a theorem about it is a statement about exact arithmetic. The second
  model, in the sections on double precision, computes with IEEE 754 doubles and shows
  where a statement about the code's own numbers fails.

  A Python \<^verbatim>\<open>dict\<close> whose iteration order matters is an association list with
  distinct keys, in insertion order. \<^const>\<open>map_of\<close> is the lookup and
  \<^const>\<open>AList.update\<close> is the item assignment \<^verbatim>\<open>d[k] = v\<close>: it replaces the
  value in place when the key is present and appends the key otherwise.
\<close>

datatype pyval = Num real | Str string

datatype error =
    MissingWeight string
  | MissingFlag string
  | MissingCriterion pyval string
  | NonPositiveWeightSum
  | EmptySequence
  | FloatConversion pyval
  | KeyError string
  | OverflowError
  | ZeroDivisionError
  | MathDomainError


section \<open>Allocation scheduler (schedule/example.py)\<close>

record state =
  name :: string
  cost_per_habitant :: real
  population :: real

record alloc =
  alloc_name :: string
  alloc_allocated :: real

record coverage_rec =
  cov_name :: string
  total_cost :: real
  allocated :: real
  coverage_pct :: real
  fully_funded :: bool

datatype sched_value =
    Allocations "alloc list"
  | RemainingBudgets "(string \<times> real) list"
  | Coverage "coverage_rec list"

definition compute_state_cost :: "state \<Rightarrow> real" where
  "compute_state_cost s = cost_per_habitant s * population s"

text \<open>The variables of one iteration of the outer loop (lines 35 to 51).\<close>

record funding =
  remaining :: "(string \<times> real) list"
  schedule :: "(string \<times> alloc list) list"
  need :: real
  allocated_total :: real

text \<open>Lines 48 to 51: the amount \<open>allot\<close> of period \<open>q\<close> goes to the entity \<open>nm\<close>.\<close>

definition allocate ::
  "string \<Rightarrow> string \<Rightarrow> real \<Rightarrow> alloc list \<Rightarrow> real \<Rightarrow> funding \<Rightarrow> funding" where
  "allocate q nm r l allot st =
     \<lparr>remaining = AList.update q (r - allot) (remaining st),
      schedule =
        AList.update q (l @ [\<lparr>alloc_name = nm, alloc_allocated = allot\<rparr>]) (schedule st),
      need = need st - allot,
      allocated_total = allocated_total st + allot\<rparr>"

text \<open>
  The inner loop, lines 40 to 51, over the keys \<open>qs\<close> still to visit.
  \<^verbatim>\<open>break\<close> returns the variables as they are, \<^verbatim>\<open>continue\<close> goes on with the
  remaining keys. A subscript with an absent key raises \<^verbatim>\<open>KeyError\<close>; \<open>r\<close> is
  \<^verbatim>\<open>remaining[q]\<close> and \<open>l\<close> is \<^verbatim>\<open>schedule[q]\<close>.
\<close>

fun fund_quarters :: "string list \<Rightarrow> string \<Rightarrow> funding \<Rightarrow> error + funding" where
  "fund_quarters [] nm st = Inr st"
| "fund_quarters (q # qs) nm st =
     (if need st \<le> 0 then Inr st
      else case map_of (remaining st) q of
        None \<Rightarrow> Inl (KeyError q)
      | Some r \<Rightarrow>
          if r \<le> 0 then fund_quarters qs nm st
          else
            let allot = min (need st) r in
            if allot > 0 then
              (case map_of (schedule st) q of
                 None \<Rightarrow> Inl (KeyError q)
               | Some l \<Rightarrow> fund_quarters qs nm (allocate q nm r l allot st))
            else fund_quarters qs nm st)"

text \<open>The state of the pass between two entities: lines 30 to 32.\<close>

record pass =
  p_remaining :: "(string \<times> real) list"
  p_schedule :: "(string \<times> alloc list) list"
  p_coverage :: "coverage_rec list"

text \<open>One iteration of the outer loop, lines 35 to 59.\<close>

definition fund_state :: "state \<Rightarrow> pass \<Rightarrow> error + pass" where
  "fund_state s p =
     (let total = compute_state_cost s in
      case fund_quarters (map fst (p_remaining p)) (name s)
             \<lparr>remaining = p_remaining p, schedule = p_schedule p,
              need = total, allocated_total = 0\<rparr> of
        Inl e \<Rightarrow> Inl e
      | Inr st \<Rightarrow>
          Inr \<lparr>p_remaining = remaining st, p_schedule = schedule st,
               p_coverage = p_coverage p @
                 [\<lparr>cov_name = name s, total_cost = total,
                   allocated = allocated_total st,
                   coverage_pct =
                     (if total > 0 then allocated_total st / total else 0),
                   fully_funded = (allocated_total st \<ge> total)\<rparr>]\<rparr>)"

text \<open>The outer loop, line 34.\<close>

fun run_pass :: "state list \<Rightarrow> pass \<Rightarrow> error + pass" where
  "run_pass [] p = Inr p"
| "run_pass (s # ss) p =
     (case fund_state s p of Inl e \<Rightarrow> Inl e | Inr p' \<Rightarrow> run_pass ss p')"

definition init_pass :: "(string \<times> real) list \<Rightarrow> pass" where
  "init_pass budgets =
     \<lparr>p_remaining = map (\<lambda>(q, b). (q, b)) budgets,
      p_schedule = map (\<lambda>q. (q, [])) (map fst budgets),
      p_coverage = []\<rparr>"

text \<open>
  Lines 61 to 63: the remaining budgets and the coverage list are stored in the same
  dictionary as the allocation lists of the periods.
\<close>

definition finish :: "pass \<Rightarrow> (string \<times> sched_value) list" where
  "finish p =
     AList.update ''coverage'' (Coverage (p_coverage p))
       (AList.update ''remaining_budgets'' (RemainingBudgets (p_remaining p))
          (map (\<lambda>(q, l). (q, Allocations l)) (p_schedule p)))"

definition schedule_allow_split ::
  "state list \<Rightarrow> (string \<times> real) list \<Rightarrow> error + (string \<times> sched_value) list" where
  "schedule_allow_split states budgets =
     (case run_pass states (init_pass budgets) of
        Inl e \<Rightarrow> Inl e
      | Inr p \<Rightarrow> Inr (finish p))"

text \<open>
  Reading the dictionaries of the pass: the remaining budget of a period, the allocation
  list of a period, and the sum of the amounts of an allocation list.
\<close>

definition rem_of :: "(string \<times> real) list \<Rightarrow> string \<Rightarrow> real" where
  "rem_of rem q = (case map_of rem q of Some r \<Rightarrow> r | None \<Rightarrow> 0)"

definition allocs_of :: "(string \<times> alloc list) list \<Rightarrow> string \<Rightarrow> alloc list" where
  "allocs_of sched q = (case map_of sched q of Some l \<Rightarrow> l | None \<Rightarrow> [])"

definition allocated_sum :: "alloc list \<Rightarrow> real" where
  "allocated_sum l = sum_list (map alloc_allocated l)"



text \<open>
  Budget conservation read off the returned dictionary \<open>res\<close>: the entry of period
  \<open>q\<close> is an allocation list, and the sum of its amounts plus the remaining budget of
  \<open>q\<close> (found under the key \<^verbatim>\<open>remaining_budgets\<close>) is the original budget of \<open>q\<close>.
\<close>

definition budget_conserved ::
  "(string \<times> sched_value) list \<Rightarrow> (string \<times> real) list \<Rightarrow> string \<Rightarrow> bool" where
  "budget_conserved res budgets q =
     (case (map_of res q, map_of res ''remaining_budgets'', map_of budgets q) of
        (Some (Allocations l), Some (RemainingBudgets rem), Some b) \<Rightarrow>
          (case map_of rem q of Some r \<Rightarrow> allocated_sum l + r = b | None \<Rightarrow> False)
      | _ \<Rightarrow> False)"

definition conserves_all :: "state list \<Rightarrow> (string \<times> real) list \<Rightarrow> bool" where
  "conserves_all states budgets =
     (case schedule_allow_split states budgets of
        Inl e \<Rightarrow> False
      | Inr res \<Rightarrow> list_all (budget_conserved res budgets) (map fst budgets))"

text \<open>The state of the pass once the first \<open>k\<close> entities have been funded.\<close>

definition pass_after :: "nat \<Rightarrow> state list \<Rightarrow> (string \<times> real) list \<Rightarrow> error + pass" where
  "pass_after k states budgets = run_pass (take k states) (init_pass budgets)"

section \<open>Ranking engine (topsis/simple-example.py)\<close>

text \<open>
  An entity is a dictionary from field names to values. The weights and the
  benefit flags are dictionaries too; the argument \<open>None\<close> stands for an omitted
  argument. Only the lookups matter here, so these dictionaries are maps.
\<close>

type_synonym entity = "string \<rightharpoonup> pyval"

text \<open>
  The dictionaries built at lines 111 to 117; \<open>e_rank\<close> is \<open>None\<close> until line 123
  stores the key \<^verbatim>\<open>rank\<close>.
\<close>

record entry =
  e_name :: pyval
  e_closeness :: real
  e_score :: pyval
  e_cost_per_habitant :: pyval
  e_population :: pyval
  e_rank :: "nat option"

text \<open>A subscript \<^verbatim>\<open>d[k]\<close>, and a list comprehension whose elements may raise.\<close>

definition subscript :: "(string \<rightharpoonup> 'v) \<Rightarrow> string \<Rightarrow> error + 'v" where
  "subscript d k = (case d k of None \<Rightarrow> Inl (KeyError k) | Some v \<Rightarrow> Inr v)"

fun collect :: "('a \<Rightarrow> error + 'b) \<Rightarrow> 'a list \<Rightarrow> error + 'b list" where
  "collect f [] = Inr []"
| "collect f (x # xs) =
     (case f x of
        Inl e \<Rightarrow> Inl e
      | Inr y \<Rightarrow> (case collect f xs of Inl e \<Rightarrow> Inl e | Inr ys \<Rightarrow> Inr (y # ys)))"

text \<open>
  \<^verbatim>\<open>float(v)\<close>. Criterion values are numbers; the conversion of a \<^verbatim>\<open>str\<close> is
  modelled as the \<^verbatim>\<open>ValueError\<close> that Python raises for a text that does not spell
  a number.
\<close>

fun py_float :: "pyval \<Rightarrow> error + real" where
  "py_float (Num x) = Inr x"
| "py_float (Str s) = Inl (FloatConversion (Str s))"

text \<open>\<^verbatim>\<open>max\<close> and \<^verbatim>\<open>min\<close> of a list raise \<^verbatim>\<open>ValueError\<close> on the empty list.\<close>

fun py_max :: "real list \<Rightarrow> error + real" where
  "py_max [] = Inl EmptySequence"
| "py_max (x # xs) = Inr (fold max xs x)"

fun py_min :: "real list \<Rightarrow> error + real" where
  "py_min [] = Inl EmptySequence"
| "py_min (x # xs) = Inr (fold min xs x)"

text \<open>Lines 42 to 46 and the default of \<^verbatim>\<open>criteria_order\<close> (line 9).\<close>

definition default_weights :: "string \<rightharpoonup> real" where
  "default_weights =
     [''score'' \<mapsto> 6 / 10, ''cost_per_habitant'' \<mapsto> 3 / 10, ''population'' \<mapsto> 1 / 10]"

definition default_benefit_flags :: "string \<rightharpoonup> bool" where
  "default_benefit_flags =
     [''score'' \<mapsto> True, ''cost_per_habitant'' \<mapsto> False, ''population'' \<mapsto> True]"

definition default_criteria_order :: "string list" where
  "default_criteria_order = [''score'', ''cost_per_habitant'', ''population'']"

definition resolve_weights :: "(string \<rightharpoonup> real) option \<Rightarrow> (string \<rightharpoonup> real)" where
  "resolve_weights weights = (case weights of None \<Rightarrow> default_weights | Some w \<Rightarrow> w)"

definition resolve_flags :: "(string \<rightharpoonup> bool) option \<Rightarrow> (string \<rightharpoonup> bool)" where
  "resolve_flags benefit_flags =
     (case benefit_flags of None \<Rightarrow> default_benefit_flags | Some f \<Rightarrow> f)"

text \<open>Lines 49 to 53.\<close>

fun check_criteria ::
  "(string \<rightharpoonup> real) \<Rightarrow> (string \<rightharpoonup> bool) \<Rightarrow> string list \<Rightarrow> error + unit" where
  "check_criteria weights benefit_flags [] = Inr ()"
| "check_criteria weights benefit_flags (c # cs) =
     (if weights c = None then Inl (MissingWeight c)
      else if benefit_flags c = None then Inl (MissingFlag c)
      else check_criteria weights benefit_flags cs)"

text \<open>Lines 54 to 57; the error names \<^verbatim>\<open>s.get('name', '?')\<close>.\<close>

fun check_state :: "entity \<Rightarrow> string list \<Rightarrow> error + unit" where
  "check_state s [] = Inr ()"
| "check_state s (c # cs) =
     (if s c = None
      then Inl (MissingCriterion (case s ''name'' of None \<Rightarrow> Str ''?'' | Some v \<Rightarrow> v) c)
      else check_state s cs)"

fun check_states :: "entity list \<Rightarrow> string list \<Rightarrow> error + unit" where
  "check_states [] criteria_order = Inr ()"
| "check_states (s # ss) criteria_order =
     (case check_state s criteria_order of
        Inl e \<Rightarrow> Inl e
      | Inr u \<Rightarrow> check_states ss criteria_order)"

text \<open>Lines 60 and 61.\<close>

definition entity_names :: "entity list \<Rightarrow> error + pyval list" where
  "entity_names states = collect (\<lambda>s. subscript s ''name'') states"

definition build_matrix :: "entity list \<Rightarrow> string list \<Rightarrow> error + real list list" where
  "build_matrix states criteria_order =
     collect (\<lambda>s. collect (\<lambda>c. case subscript s c of Inl e \<Rightarrow> Inl e | Inr v \<Rightarrow> py_float v)
                     criteria_order) states"

text \<open>Lines 66 to 71: the column norms and the normalised matrix \<open>R\<close>.\<close>

definition col_norms :: "real list list \<Rightarrow> nat \<Rightarrow> nat \<Rightarrow> real list" where
  "col_norms X n m =
     map (\<lambda>j. let norm = sqrt (sum_list (map (\<lambda>i. (X ! i ! j) ^ 2) [0..<n]))
              in if norm \<noteq> 0 then norm else 1) [0..<m]"

definition normalized_matrix :: "real list list \<Rightarrow> nat \<Rightarrow> nat \<Rightarrow> real list list" where
  "normalized_matrix X n m =
     map (\<lambda>i. map (\<lambda>j. X ! i ! j / col_norms X n m ! j) [0..<m]) [0..<n]"

text \<open>Lines 74 to 78: the weights of the criteria, divided by their total.\<close>

definition normalized_weights :: "(string \<rightharpoonup> real) \<Rightarrow> string list \<Rightarrow> error + real list" where
  "normalized_weights weights criteria_order =
     (case collect (subscript weights) criteria_order of
        Inl e \<Rightarrow> Inl e
      | Inr weight_vec \<Rightarrow>
          let total_w = sum_list weight_vec in
          if total_w \<le> 0 then Inl NonPositiveWeightSum
          else Inr (map (\<lambda>w. w / total_w) weight_vec))"

text \<open>Line 80.\<close>

definition weigh :: "real list list \<Rightarrow> real list \<Rightarrow> nat \<Rightarrow> nat \<Rightarrow> real list list" where
  "weigh R weight_vec n m =
     map (\<lambda>i. map (\<lambda>j. R ! i ! j * weight_vec ! j) [0..<m]) [0..<n]"

text \<open>
  Lines 85 to 92, one iteration: the best and the worst value of column \<open>j\<close>. The
  whole loop collects the pairs; \<open>A_plus\<close> is the list of the first components and
  \<open>A_minus\<close> the list of the second ones.
\<close>

definition ideal_pair ::
  "(string \<rightharpoonup> bool) \<Rightarrow> string list \<Rightarrow> real list list \<Rightarrow> nat \<Rightarrow> nat \<Rightarrow> error + real \<times> real"
  where
  "ideal_pair benefit_flags criteria_order V n j =
     (let col = map (\<lambda>i. V ! i ! j) [0..<n] in
      case subscript benefit_flags (criteria_order ! j) of
        Inl e \<Rightarrow> Inl e
      | Inr True \<Rightarrow>
          (case py_max col of
             Inl e \<Rightarrow> Inl e
           | Inr hi \<Rightarrow> (case py_min col of Inl e \<Rightarrow> Inl e | Inr lo \<Rightarrow> Inr (hi, lo)))
      | Inr False \<Rightarrow>
          (case py_min col of
             Inl e \<Rightarrow> Inl e
           | Inr lo \<Rightarrow> (case py_max col of Inl e \<Rightarrow> Inl e | Inr hi \<Rightarrow> Inr (lo, hi))))"

definition ideals ::
  "(string \<rightharpoonup> bool) \<Rightarrow> string list \<Rightarrow> real list list \<Rightarrow> nat \<Rightarrow> nat \<Rightarrow>
   error + real list \<times> real list" where
  "ideals benefit_flags criteria_order V n m =
     (case collect (ideal_pair benefit_flags criteria_order V n) [0..<m] of
        Inl e \<Rightarrow> Inl e
      | Inr A \<Rightarrow> Inr (map fst A, map snd A))"

text \<open>Lines 95 to 106.\<close>

definition euclidean_dist :: "nat \<Rightarrow> real list \<Rightarrow> real list \<Rightarrow> real" where
  "euclidean_dist m vec ref = sqrt (sum_list (map (\<lambda>j. (vec ! j - ref ! j) ^ 2) [0..<m]))"

definition closeness_coeff :: "real \<Rightarrow> real \<Rightarrow> real" where
  "closeness_coeff s_plus s_minus =
     (let denom = s_plus + s_minus in if denom \<noteq> 0 then s_minus / denom else 0)"

definition closeness_list ::
  "nat \<Rightarrow> nat \<Rightarrow> real list list \<Rightarrow> real list \<Rightarrow> real list \<Rightarrow> real list" where
  "closeness_list n m V A_plus A_minus =
     (let S_plus = map (\<lambda>i. euclidean_dist m (V ! i) A_plus) [0..<n];
          S_minus = map (\<lambda>i. euclidean_dist m (V ! i) A_minus) [0..<n]
      in map (\<lambda>i. closeness_coeff (S_plus ! i) (S_minus ! i)) [0..<n])"

text \<open>Lines 110 to 118.\<close>

definition make_entry :: "entity list \<Rightarrow> pyval list \<Rightarrow> real list \<Rightarrow> nat \<Rightarrow> error + entry" where
  "make_entry states names closeness i =
     (case subscript (states ! i) ''score'' of
        Inl e \<Rightarrow> Inl e
      | Inr sc \<Rightarrow>
          (case subscript (states ! i) ''cost_per_habitant'' of
             Inl e \<Rightarrow> Inl e
           | Inr cp \<Rightarrow>
               (case subscript (states ! i) ''population'' of
                  Inl e \<Rightarrow> Inl e
                | Inr po \<Rightarrow>
                    Inr \<lparr>e_name = names ! i, e_closeness = closeness ! i, e_score = sc,
                         e_cost_per_habitant = cp, e_population = po, e_rank = None\<rparr>)))"

text \<open>
  Line 121: \<^verbatim>\<open>sorted(..., reverse=True)\<close> reverses the list, sorts it stably in
  ascending order of the key and reverses the outcome, which keeps elements with equal
  keys in their original order. Lines 122 and 123 number the sorted entries from 1.
\<close>

definition sorted_reverse :: "('a \<Rightarrow> real) \<Rightarrow> 'a list \<Rightarrow> 'a list" where
  "sorted_reverse key xs = rev (sort_key key (rev xs))"

definition assign_ranks :: "entry list \<Rightarrow> entry list" where
  "assign_ranks rs = map (\<lambda>(idx, r). r\<lparr>e_rank := Some idx\<rparr>) (zip [1..<Suc (length rs)] rs)"

definition rank_entries :: "entry list \<Rightarrow> entry list" where
  "rank_entries result = assign_ranks (sorted_reverse e_closeness result)"

text \<open>The list \<open>result\<close> of line 118, or the first error raised on the way.\<close>

definition topsis_result ::
  "entity list \<Rightarrow> (string \<rightharpoonup> real) option \<Rightarrow> (string \<rightharpoonup> bool) option \<Rightarrow> string list \<Rightarrow>
   error + entry list" where
  "topsis_result states weights_arg flags_arg criteria_order =
     (let weights = resolve_weights weights_arg;
          benefit_flags = resolve_flags flags_arg
      in
      case check_criteria weights benefit_flags criteria_order of Inl e \<Rightarrow> Inl e | Inr u \<Rightarrow>
      case check_states states criteria_order of Inl e \<Rightarrow> Inl e | Inr u \<Rightarrow>
      case entity_names states of Inl e \<Rightarrow> Inl e | Inr names \<Rightarrow>
      case build_matrix states criteria_order of Inl e \<Rightarrow> Inl e | Inr X \<Rightarrow>
      let n = length states;
          m = length criteria_order;
          R = normalized_matrix X n m
      in
      case normalized_weights weights criteria_order of Inl e \<Rightarrow> Inl e | Inr weight_vec \<Rightarrow>
      let V = weigh R weight_vec n m in
      case ideals benefit_flags criteria_order V n m of Inl e \<Rightarrow> Inl e | Inr (A_plus, A_minus) \<Rightarrow>
      let closeness = closeness_list n m V A_plus A_minus in
      collect (make_entry states names closeness) [0..<n])"

text \<open>The list \<open>result_sorted\<close> as it is after line 123.\<close>

definition topsis_ranked ::
  "entity list \<Rightarrow> (string \<rightharpoonup> real) option \<Rightarrow> (string \<rightharpoonup> bool) option \<Rightarrow> string list \<Rightarrow>
   error + entry list" where
  "topsis_ranked states weights_arg flags_arg criteria_order =
     (case topsis_result states weights_arg flags_arg criteria_order of
        Inl e \<Rightarrow> Inl e
      | Inr result \<Rightarrow> Inr (rank_entries result))"

text \<open>
  The function itself. Its body ends after line 123 with no \<^verbatim>\<open>return\<close> statement, so a
  call that raises nothing returns \<^verbatim>\<open>None\<close>, here \<open>Inr None\<close>.
\<close>

definition topsis_rank_states ::
  "entity list \<Rightarrow> (string \<rightharpoonup> real) option \<Rightarrow> (string \<rightharpoonup> bool) option \<Rightarrow> string list \<Rightarrow>
   error + entry list option" where
  "topsis_rank_states states weights_arg flags_arg criteria_order =
     (case topsis_ranked states weights_arg flags_arg criteria_order of
        Inl e \<Rightarrow> Inl e
      | Inr result_sorted \<Rightarrow> Inr None)"

text \<open>
  The four conditions under which the ranking engine raises one of its own errors
  (lines 51, 53, 57 and 77), and the errors themselves. \<open>EmptySequence\<close> and
  \<open>FloatConversion\<close> are \<^verbatim>\<open>ValueError\<close>s of Python as well, raised by \<^verbatim>\<open>max\<close>,
  \<^verbatim>\<open>min\<close> and \<^verbatim>\<open>float\<close>.
\<close>

definition total_weight :: "(string \<rightharpoonup> real) \<Rightarrow> string list \<Rightarrow> real" where
  "total_weight weights criteria_order =
     sum_list (map (\<lambda>c. case weights c of None \<Rightarrow> 0 | Some w \<Rightarrow> w) criteria_order)"

definition validation_condition ::
  "entity list \<Rightarrow> (string \<rightharpoonup> real) option \<Rightarrow> (string \<rightharpoonup> bool) option \<Rightarrow> string list \<Rightarrow> bool"
  where
  "validation_condition states weights_arg flags_arg criteria_order =
     (list_ex (\<lambda>c. resolve_weights weights_arg c = None) criteria_order \<or>
      list_ex (\<lambda>c. resolve_flags flags_arg c = None) criteria_order \<or>
      list_ex (\<lambda>s. list_ex (\<lambda>c. s c = None) criteria_order) states \<or>
      total_weight (resolve_weights weights_arg) criteria_order \<le> 0)"


text \<open>
  Entities as the docstring describes them: a name, the three fields that every result
  entry copies, and numbers as criterion values; and at least one entity.
\<close>

definition documented_entity :: "string list \<Rightarrow> entity \<Rightarrow> bool" where
  "documented_entity criteria_order s =
     (s ''name'' \<noteq> None \<and> s ''score'' \<noteq> None \<and> s ''cost_per_habitant'' \<noteq> None \<and>
      s ''population'' \<noteq> None \<and>
      list_all (\<lambda>c. case s c of Some (Str x) \<Rightarrow> False | _ \<Rightarrow> True) criteria_order)"

definition documented_input :: "entity list \<Rightarrow> string list \<Rightarrow> bool" where
  "documented_input states criteria_order =
     (states \<noteq> [] \<and> list_all (documented_entity criteria_order) states)"

text \<open>The entities of the example run at lines 127 to 133.\<close>

definition example_entity :: "string \<Rightarrow> real \<Rightarrow> real \<Rightarrow> real \<Rightarrow> entity" where
  "example_entity nm sc cp po =
     [''name'' \<mapsto> Str nm, ''score'' \<mapsto> Num sc, ''cost_per_habitant'' \<mapsto> Num cp,
      ''population'' \<mapsto> Num po]"

definition example_states :: "entity list" where
  "example_states =
     [example_entity ''State A'' 78 1100 2500000,
      example_entity ''State B'' 85 1500 4000000,
      example_entity ''State C'' 72 900 1200000,
      example_entity ''State D'' 90 1700 3300000,
      example_entity ''State E'' 80 1000 2000000]"


section \<open>Double-precision arithmetic\<close>




definition round_half_even :: "real \<Rightarrow> int" where
  "round_half_even x =
     (let f = \<lfloor>x\<rfloor>; d = x - of_int f
      in if d < 1 / 2 then f else if 1 / 2 < d then f + 1 else if even f then f else f + 1)"


















section \<open>The scheduler in double precision\<close>














section \<open>The normalisation step in double precision\<close>








section \<open>The inner loop of the scheduler\<close>

text \<open>
  A property that holds from every state to itself, and that one allocation (lines 48 to
  51) carries backwards, holds between the start and the end of the inner loop.
\<close>

lemma fund_quarters_rel:
  assumes run: "fund_quarters qs nm st = Inr st'"
    and refl: "\<And>s. R s s"
    and step: "\<And>s q r l. 0 < need s \<Longrightarrow> map_of (remaining s) q = Some r \<Longrightarrow> 0 < r \<Longrightarrow>
                 map_of (schedule s) q = Some l \<Longrightarrow>
                 R (allocate q nm r l (min (need s) r) s) st' \<Longrightarrow> R s st'"
  shows "R st st'"
  using run
proof (induction qs arbitrary: st)
  case Nil
  then show ?case by (simp add: refl)
next
  case (Cons k ks)
  show ?case
  proof (cases "need st \<le> 0")
    case True
    with Cons.prems show ?thesis by (simp add: refl)
  next
    case pos: False
    then obtain r where r: "map_of (remaining st) k = Some r"
      using Cons.prems by (auto split: option.splits)
    show ?thesis
    proof (cases "r \<le> 0")
      case True
      with pos r Cons.prems have "fund_quarters ks nm st = Inr st'" by simp
      then show ?thesis by (rule Cons.IH)
    next
      case False
      with pos have m: "0 < min (need st) r" by simp
      with pos r False Cons.prems obtain l where l: "map_of (schedule st) k = Some l"
        and rest: "fund_quarters ks nm (allocate k nm r l (min (need st) r) st) = Inr st'"
        by (auto simp: Let_def split: option.splits)
      from rest have "R (allocate k nm r l (min (need st) r) st) st'" by (rule Cons.IH)
      with pos r False l show ?thesis by (intro step[of st k r l]) auto
    qed
  qed
qed


lemma fund_quarters_conserve:
  assumes "fund_quarters qs nm st = Inr st'"
  shows "allocated_sum (allocs_of (schedule st') q) + rem_of (remaining st') q =
   allocated_sum (allocs_of (schedule st) q) + rem_of (remaining st) q"
  by (rule fund_quarters_rel[OF assms, where R = "\<lambda>s s'.
        allocated_sum (allocs_of (schedule s') q) + rem_of (remaining s') q =
        allocated_sum (allocs_of (schedule s) q) + rem_of (remaining s) q"])
     (simp_all add: allocate_def rem_of_def allocs_of_def allocated_sum_def AList.update_conv'
        split: if_splits)

lemma fund_quarters_mono:
  assumes "fund_quarters qs nm st = Inr st'"
  shows "rem_of (remaining st') q \<le> rem_of (remaining st) q"
  by (rule fund_quarters_rel[OF assms, where R = "\<lambda>s s'.
        rem_of (remaining s') q \<le> rem_of (remaining s) q"])
     (simp_all add: allocate_def rem_of_def AList.update_conv' split: if_splits)

lemma fund_quarters_nonneg:
  assumes "fund_quarters qs nm st = Inr st'"
  shows "0 \<le> rem_of (remaining st) q \<longrightarrow> 0 \<le> rem_of (remaining st') q"
  by (rule fund_quarters_rel[OF assms, where R = "\<lambda>s s'.
        0 \<le> rem_of (remaining s) q \<longrightarrow> 0 \<le> rem_of (remaining s') q"])
     (simp_all add: allocate_def rem_of_def AList.update_conv' split: if_splits)

lemma fund_quarters_exhausted:
  assumes "fund_quarters qs nm st = Inr st'"
  shows "rem_of (remaining st) q \<le> 0 \<longrightarrow>
    rem_of (remaining st') q = rem_of (remaining st) q \<and>
    allocs_of (schedule st') q = allocs_of (schedule st) q"
  by (rule fund_quarters_rel[OF assms, where R = "\<lambda>s s'.
        rem_of (remaining s) q \<le> 0 \<longrightarrow>
        rem_of (remaining s') q = rem_of (remaining s) q \<and>
        allocs_of (schedule s') q = allocs_of (schedule s) q"])
     (simp_all add: allocate_def rem_of_def allocs_of_def AList.update_conv' split: if_splits)

lemma allocs_of_allocate:
  "map_of (schedule s) k = Some l \<Longrightarrow>
   allocs_of (schedule (allocate k nm r l a s)) q =
     (if q = k then allocs_of (schedule s) q @ [\<lparr>alloc_name = nm, alloc_allocated = a\<rparr>]
      else allocs_of (schedule s) q)"
  by (simp add: allocate_def allocs_of_def AList.update_conv')

lemma rem_of_allocate:
  "map_of (remaining s) k = Some r \<Longrightarrow>
   rem_of (remaining (allocate k nm r l a s)) q =
     (if q = k then rem_of (remaining s) q - a else rem_of (remaining s) q)"
  by (simp add: allocate_def rem_of_def AList.update_conv')

lemma fund_quarters_positive:
  assumes "fund_quarters qs nm st = Inr st'"
  shows "(\<forall>a \<in> set (allocs_of (schedule st) q). 0 < alloc_allocated a) \<longrightarrow>
    (\<forall>a \<in> set (allocs_of (schedule st') q). 0 < alloc_allocated a)"
proof (rule fund_quarters_rel[OF assms, where R = "\<lambda>s s'.
        (\<forall>a \<in> set (allocs_of (schedule s) q). 0 < alloc_allocated a) \<longrightarrow>
        (\<forall>a \<in> set (allocs_of (schedule s') q). 0 < alloc_allocated a)"])
  fix s k r l
  assume pos: "0 < need s" "0 < r" and l: "map_of (schedule s) k = Some l"
    and step: "(\<forall>a\<in>set (allocs_of (schedule (allocate k nm r l (min (need s) r) s)) q).
                  0 < alloc_allocated a) \<longrightarrow>
               (\<forall>a\<in>set (allocs_of (schedule st') q). 0 < alloc_allocated a)"
  show "(\<forall>a\<in>set (allocs_of (schedule s) q). 0 < alloc_allocated a) \<longrightarrow>
        (\<forall>a\<in>set (allocs_of (schedule st') q). 0 < alloc_allocated a)"
  proof
    assume old: "\<forall>a\<in>set (allocs_of (schedule s) q). 0 < alloc_allocated a"
    have "\<forall>a\<in>set (allocs_of (schedule (allocate k nm r l (min (need s) r) s)) q).
            0 < alloc_allocated a"
      using old pos by (simp add: allocs_of_allocate[OF l])
    with step show "\<forall>a\<in>set (allocs_of (schedule st') q). 0 < alloc_allocated a" by blast
  qed
qed simp


lemma fund_quarters_keys:
  assumes "fund_quarters qs nm st = Inr st'"
  shows "map fst (remaining st') = map fst (remaining st) \<and>
         map fst (schedule st') = map fst (schedule st)"
  by (rule fund_quarters_rel[OF assms, where R = "\<lambda>s s'.
        map fst (remaining s') = map fst (remaining s) \<and>
         map fst (schedule s') = map fst (schedule s)"])
     (auto simp: allocate_def AList.update_keys dest!: map_of_SomeD intro: rev_image_eqI)

lemma fund_quarters_total:
  assumes "set qs \<subseteq> fst ` set (remaining st)"
    and "fst ` set (remaining st) \<subseteq> fst ` set (schedule st)"
  shows "\<exists>st'. fund_quarters qs nm st = Inr st'"
  using assms
proof (induction qs arbitrary: st)
  case Nil
  then show ?case by simp
next
  case (Cons k ks)
  from Cons.prems obtain r where r: "map_of (remaining st) k = Some r"
    by (metis list.set_intros(1) subsetD domD dom_map_of_conv_image_fst)
  from Cons.prems obtain l where l: "map_of (schedule st) k = Some l"
    by (metis list.set_intros(1) subsetD domD dom_map_of_conv_image_fst)
  let ?st2 = "allocate k nm r l (min (need st) r) st"
  have "\<exists>st'. fund_quarters ks nm st = Inr st'"
    using Cons.prems by (intro Cons.IH) auto
  moreover have "\<exists>st'. fund_quarters ks nm ?st2 = Inr st'"
    using Cons.prems by (intro Cons.IH) (auto simp: allocate_def AList.dom_update)
  ultimately show ?case using r l by (simp add: Let_def)
qed


section \<open>One entity, then the whole pass\<close>

lemma fund_state_InrD:
  assumes "fund_state s p = Inr p'"
  obtains st where
    "fund_quarters (map fst (p_remaining p)) (name s)
       \<lparr>remaining = p_remaining p, schedule = p_schedule p,
        need = compute_state_cost s, allocated_total = 0\<rparr> = Inr st"
    "p_remaining p' = remaining st" "p_schedule p' = schedule st"
    "p_coverage p' = p_coverage p @
       [\<lparr>cov_name = name s, total_cost = compute_state_cost s,
         allocated = allocated_total st,
         coverage_pct = (if compute_state_cost s > 0
                         then allocated_total st / compute_state_cost s else 0),
         fully_funded = (allocated_total st \<ge> compute_state_cost s)\<rparr>]"
  using assms unfolding fund_state_def Let_def
  by (cases "fund_quarters (map fst (p_remaining p)) (name s)
       \<lparr>remaining = p_remaining p, schedule = p_schedule p,
        need = compute_state_cost s, allocated_total = 0\<rparr>") auto

lemma fund_state_conserve:
  assumes "fund_state s p = Inr p'"
  shows "allocated_sum (allocs_of (p_schedule p') q) + rem_of (p_remaining p') q =
         allocated_sum (allocs_of (p_schedule p) q) + rem_of (p_remaining p) q"
  using assms by (elim fund_state_InrD) (use fund_quarters_conserve in fastforce)

lemma fund_state_mono:
  assumes "fund_state s p = Inr p'"
  shows "rem_of (p_remaining p') q \<le> rem_of (p_remaining p) q"
  using assms by (elim fund_state_InrD) (use fund_quarters_mono in fastforce)

lemma fund_state_nonneg:
  assumes "fund_state s p = Inr p'" and "0 \<le> rem_of (p_remaining p) q"
  shows "0 \<le> rem_of (p_remaining p') q"
  using assms by (elim fund_state_InrD) (use fund_quarters_nonneg in fastforce)

lemma fund_state_exhausted:
  assumes "fund_state s p = Inr p'" and "rem_of (p_remaining p) q \<le> 0"
  shows "rem_of (p_remaining p') q = rem_of (p_remaining p) q \<and>
         allocs_of (p_schedule p') q = allocs_of (p_schedule p) q"
  using assms by (elim fund_state_InrD) (use fund_quarters_exhausted in fastforce)

lemma fund_state_positive:
  assumes "fund_state s p = Inr p'"
    and "\<forall>a \<in> set (allocs_of (p_schedule p) q). 0 < alloc_allocated a"
  shows "\<forall>a \<in> set (allocs_of (p_schedule p') q). 0 < alloc_allocated a"
  using assms by (elim fund_state_InrD) (use fund_quarters_positive in fastforce)

lemma fund_state_keys:
  assumes "fund_state s p = Inr p'"
  shows "map fst (p_remaining p') = map fst (p_remaining p) \<and>
         map fst (p_schedule p') = map fst (p_schedule p)"
  using assms by (elim fund_state_InrD) (use fund_quarters_keys in fastforce)


lemma fund_state_total:
  assumes "fst ` set (p_remaining p) \<subseteq> fst ` set (p_schedule p)"
  shows "\<exists>p'. fund_state s p = Inr p'"
proof -
  have "\<exists>st. fund_quarters (map fst (p_remaining p)) (name s)
       \<lparr>remaining = p_remaining p, schedule = p_schedule p,
        need = compute_state_cost s, allocated_total = 0\<rparr> = Inr st"
    using assms by (intro fund_quarters_total) auto
  then show ?thesis by (auto simp: fund_state_def Let_def)
qed

text \<open>
  The same scheme for the outer loop: a property carried backwards by the funding of one
  entity holds between the start and the end of the pass.
\<close>

lemma run_pass_rel:
  assumes run: "run_pass ss p = Inr p'"
    and refl: "\<And>p. R p p"
    and step: "\<And>s p p1. fund_state s p = Inr p1 \<Longrightarrow> R p1 p' \<Longrightarrow> R p p'"
  shows "R p p'"
  using run
proof (induction ss arbitrary: p)
  case Nil
  then show ?case by (simp add: refl)
next
  case (Cons s ss)
  then obtain p1 where 1: "fund_state s p = Inr p1" and 2: "run_pass ss p1 = Inr p'"
    by (auto split: sum.splits)
  from 2 have "R p1 p'" by (rule Cons.IH)
  with 1 show ?case by (rule step)
qed

lemma run_pass_append:
  "run_pass (xs @ ys) p =
     (case run_pass xs p of Inl e \<Rightarrow> Inl e | Inr p' \<Rightarrow> run_pass ys p')"
  by (induction xs arbitrary: p) (auto split: sum.splits)

lemma run_pass_conserve:
  assumes "run_pass ss p = Inr p'"
  shows "allocated_sum (allocs_of (p_schedule p') q) + rem_of (p_remaining p') q =
         allocated_sum (allocs_of (p_schedule p) q) + rem_of (p_remaining p) q"
  by (rule run_pass_rel[OF assms, where R = "\<lambda>p p'.
        allocated_sum (allocs_of (p_schedule p') q) + rem_of (p_remaining p') q =
        allocated_sum (allocs_of (p_schedule p) q) + rem_of (p_remaining p) q"])
     (simp_all add: fund_state_conserve)

lemma run_pass_mono:
  assumes "run_pass ss p = Inr p'"
  shows "rem_of (p_remaining p') q \<le> rem_of (p_remaining p) q"
proof (rule run_pass_rel[OF assms, where R = "\<lambda>p p'.
        rem_of (p_remaining p') q \<le> rem_of (p_remaining p) q"])
  fix s p p1
  assume "fund_state s p = Inr p1" and "rem_of (p_remaining p') q \<le> rem_of (p_remaining p1) q"
  then show "rem_of (p_remaining p') q \<le> rem_of (p_remaining p) q"
    using fund_state_mono[of s p p1 q] by linarith
qed simp

lemma run_pass_nonneg:
  assumes "run_pass ss p = Inr p'"
  shows "0 \<le> rem_of (p_remaining p) q \<longrightarrow> 0 \<le> rem_of (p_remaining p') q"
  by (rule run_pass_rel[OF assms, where R = "\<lambda>p p'.
        0 \<le> rem_of (p_remaining p) q \<longrightarrow> 0 \<le> rem_of (p_remaining p') q"])
     (simp_all add: fund_state_nonneg)

lemma run_pass_exhausted:
  assumes "run_pass ss p = Inr p'"
  shows "rem_of (p_remaining p) q \<le> 0 \<longrightarrow>
         rem_of (p_remaining p') q = rem_of (p_remaining p) q \<and>
         allocs_of (p_schedule p') q = allocs_of (p_schedule p) q"
proof (rule run_pass_rel[OF assms, where R = "\<lambda>p p'.
        rem_of (p_remaining p) q \<le> 0 \<longrightarrow>
         rem_of (p_remaining p') q = rem_of (p_remaining p) q \<and>
         allocs_of (p_schedule p') q = allocs_of (p_schedule p) q"])
  fix s p p1
  assume 1: "fund_state s p = Inr p1"
    and 2: "rem_of (p_remaining p1) q \<le> 0 \<longrightarrow>
         rem_of (p_remaining p') q = rem_of (p_remaining p1) q \<and>
         allocs_of (p_schedule p') q = allocs_of (p_schedule p1) q"
  show "rem_of (p_remaining p) q \<le> 0 \<longrightarrow>
         rem_of (p_remaining p') q = rem_of (p_remaining p) q \<and>
         allocs_of (p_schedule p') q = allocs_of (p_schedule p) q"
  proof
    assume z: "rem_of (p_remaining p) q \<le> 0"
    from fund_state_exhausted[OF 1 z] 2 z
    show "rem_of (p_remaining p') q = rem_of (p_remaining p) q \<and>
         allocs_of (p_schedule p') q = allocs_of (p_schedule p) q" by simp
  qed
qed simp

lemma run_pass_positive:
  assumes "run_pass ss p = Inr p'"
  shows "(\<forall>a \<in> set (allocs_of (p_schedule p) q). 0 < alloc_allocated a) \<longrightarrow>
         (\<forall>a \<in> set (allocs_of (p_schedule p') q). 0 < alloc_allocated a)"
proof (rule run_pass_rel[OF assms, where R = "\<lambda>p p'.
        (\<forall>a \<in> set (allocs_of (p_schedule p) q). 0 < alloc_allocated a) \<longrightarrow>
         (\<forall>a \<in> set (allocs_of (p_schedule p') q). 0 < alloc_allocated a)"])
  fix s p p1
  assume 1: "fund_state s p = Inr p1"
    and 2: "(\<forall>a \<in> set (allocs_of (p_schedule p1) q). 0 < alloc_allocated a) \<longrightarrow>
         (\<forall>a \<in> set (allocs_of (p_schedule p') q). 0 < alloc_allocated a)"
  show "(\<forall>a \<in> set (allocs_of (p_schedule p) q). 0 < alloc_allocated a) \<longrightarrow>
         (\<forall>a \<in> set (allocs_of (p_schedule p') q). 0 < alloc_allocated a)"
    using fund_state_positive[OF 1, of q] 2 by blast
qed simp

lemma run_pass_keys:
  assumes "run_pass ss p = Inr p'"
  shows "map fst (p_remaining p') = map fst (p_remaining p) \<and>
         map fst (p_schedule p') = map fst (p_schedule p)"
  by (rule run_pass_rel[OF assms, where R = "\<lambda>p p'.
        map fst (p_remaining p') = map fst (p_remaining p) \<and>
         map fst (p_schedule p') = map fst (p_schedule p)"])
     (simp_all add: fund_state_keys)

lemma run_pass_total:
  assumes "fst ` set (p_remaining p) \<subseteq> fst ` set (p_schedule p)"
  shows "\<exists>p'. run_pass ss p = Inr p'"
  using assms
proof (induction ss arbitrary: p)
  case Nil
  then show ?case by simp
next
  case (Cons s ss)
  from fund_state_total[OF Cons.prems] obtain p1 where 1: "fund_state s p = Inr p1" ..
  from fund_state_keys[OF 1] Cons.prems
  have "fst ` set (p_remaining p1) \<subseteq> fst ` set (p_schedule p1)"
    by (metis list.set_map)
  from Cons.IH[OF this] 1 show ?case by simp
qed


section \<open>The scheduler as a whole\<close>

lemma init_pass_simps [simp]:
  "p_remaining (init_pass budgets) = budgets"
  "map fst (p_schedule (init_pass budgets)) = map fst budgets"
  "p_coverage (init_pass budgets) = []"
  by (simp_all add: init_pass_def comp_def)

lemma allocs_of_init [simp]: "allocs_of (p_schedule (init_pass budgets)) q = []"
  by (induction budgets) (simp_all add: init_pass_def allocs_of_def)

lemma init_pass_keys:
  "fst ` set (p_remaining (init_pass budgets)) \<subseteq> fst ` set (p_schedule (init_pass budgets))"
  by (simp add: init_pass_def image_image)

lemma map_of_finish_period:
  "q \<noteq> ''remaining_budgets'' \<Longrightarrow> q \<noteq> ''coverage'' \<Longrightarrow>
   map_of (finish p) q = map_option Allocations (map_of (p_schedule p) q)"
  by (simp add: finish_def AList.update_conv' map_of_map)

lemma map_of_finish_remaining:
  "map_of (finish p) ''remaining_budgets'' = Some (RemainingBudgets (p_remaining p))"
  by (simp add: finish_def AList.update_conv')

lemma map_of_finish_coverage:
  "map_of (finish p) ''coverage'' = Some (Coverage (p_coverage p))"
  by (simp add: finish_def AList.update_conv')

lemma map_of_keys_Some:
  "q \<in> set (map fst al) \<Longrightarrow> \<exists>v. map_of al q = Some v"
  by (metis domD dom_map_of_conv_image_fst list.set_map)


lemma run_pass_init_total: "\<exists>p. run_pass ss (init_pass budgets) = Inr p"
  by (rule run_pass_total[OF init_pass_keys])

lemma schedule_allow_split_finish:
  "run_pass states (init_pass budgets) = Inr p \<Longrightarrow>
   schedule_allow_split states budgets = Inr (finish p)"
  by (simp add: schedule_allow_split_def)

lemma pass_conserved:
  assumes run: "run_pass ss (init_pass budgets) = Inr p" and q: "q \<in> set (map fst budgets)"
  shows "\<exists>l r b. map_of (p_schedule p) q = Some l \<and> map_of (p_remaining p) q = Some r \<and>
           map_of budgets q = Some b \<and> allocated_sum l + r = b"
proof -
  from run_pass_keys[OF run]
  have keys: "map fst (p_remaining p) = map fst budgets"
    "map fst (p_schedule p) = map fst budgets" by simp_all
  from q keys obtain l where l: "map_of (p_schedule p) q = Some l"
    using map_of_keys_Some[of q "p_schedule p"] by auto
  from q keys obtain r where r: "map_of (p_remaining p) q = Some r"
    using map_of_keys_Some[of q "p_remaining p"] by auto
  from q obtain b where b: "map_of budgets q = Some b"
    using map_of_keys_Some[of q budgets] by auto
  from run_pass_conserve[OF run, of q]
  have "allocated_sum (allocs_of (p_schedule p) q) + rem_of (p_remaining p) q =
        rem_of budgets q"
    by (simp add: allocated_sum_def)
  with l r b have "allocated_sum l + r = b"
    by (simp add: allocs_of_def rem_of_def)
  with l r b show ?thesis by blast
qed

text \<open>
  Claim C2, as amended. At the end of the pass, for every period of the budget mapping,
  the amounts allocated from the period and its remaining budget add up to its original
  budget. In the returned dictionary the same can be read off for every period that is
  not named \<^verbatim>\<open>remaining_budgets\<close> or \<^verbatim>\<open>coverage\<close>.
\<close>

theorem budget_conservation:
  "\<exists>p res. run_pass states (init_pass budgets) = Inr p \<and>
     schedule_allow_split states budgets = Inr res \<and>
     (\<forall>q \<in> set (map fst budgets).
        allocated_sum (allocs_of (p_schedule p) q) + rem_of (p_remaining p) q =
          rem_of budgets q \<and>
        (q \<noteq> ''remaining_budgets'' \<and> q \<noteq> ''coverage'' \<longrightarrow>
           budget_conserved res budgets q))"
proof -
  obtain p where run: "run_pass states (init_pass budgets) = Inr p"
    using run_pass_init_total by blast
  have res: "schedule_allow_split states budgets = Inr (finish p)"
    using run by (rule schedule_allow_split_finish)
  have "allocated_sum (allocs_of (p_schedule p) q) + rem_of (p_remaining p) q =
          rem_of budgets q \<and>
        (q \<noteq> ''remaining_budgets'' \<and> q \<noteq> ''coverage'' \<longrightarrow>
           budget_conserved (finish p) budgets q)"
    if q: "q \<in> set (map fst budgets)" for q
  proof -
    from pass_conserved[OF run q] obtain l r b where
      *: "map_of (p_schedule p) q = Some l" "map_of (p_remaining p) q = Some r"
         "map_of budgets q = Some b" "allocated_sum l + r = b" by blast
    then show ?thesis
      by (simp add: budget_conserved_def map_of_finish_period map_of_finish_remaining
          allocs_of_def rem_of_def)
  qed
  with run res show ?thesis by blast
qed

theorem budget_conservation_witness:
  "case schedule_allow_split
          [\<lparr>name = ''A'', cost_per_habitant = 3, population = 5\<rparr>]
          [(''q1'', 10), (''q2'', 10)] of
     Inl e \<Rightarrow> False
   | Inr res \<Rightarrow> budget_conserved res [(''q1'', 10), (''q2'', 10)] ''q2''"
  using budget_conservation
    [of "[\<lparr>name = ''A'', cost_per_habitant = 3, population = 5\<rparr>]"
        "[(''q1'', 10), (''q2'', 10)]"]
  by auto

text \<open>
  Claim C2 as stated fails for a period named \<^verbatim>\<open>coverage\<close>: the returned dictionary
  holds the coverage list under that key, not the allocations of the period.
\<close>

theorem budget_conservation_counterexample:
  "\<not> conserves_all [\<lparr>name = ''A'', cost_per_habitant = 3, population = 5\<rparr>]
        [(''coverage'', 10), (''q2'', 10)]"
  by (simp add: conserves_all_def schedule_allow_split_def init_pass_def fund_state_def
      compute_state_cost_def allocate_def finish_def budget_conserved_def Let_def)



text \<open>
  Claim C10. When a period of the budget mapping is named \<^verbatim>\<open>remaining_budgets\<close> or
  \<^verbatim>\<open>coverage\<close>, the pass records an allocation list for it, and the returned
  dictionary holds no allocation list under that key: lines 61 and 62 have replaced it.
\<close>

theorem reserved_period_overwritten:
  assumes "q \<in> set (map fst budgets)" and "q = ''remaining_budgets'' \<or> q = ''coverage''"
  shows "\<exists>p res l. run_pass states (init_pass budgets) = Inr p \<and>
           map_of (p_schedule p) q = Some l \<and>
           schedule_allow_split states budgets = Inr res \<and>
           (\<forall>l'. map_of res q \<noteq> Some (Allocations l'))"
proof -
  obtain p where run: "run_pass states (init_pass budgets) = Inr p"
    using run_pass_init_total by blast
  from pass_conserved[OF run assms(1)] obtain l where l: "map_of (p_schedule p) q = Some l"
    by blast
  have "\<forall>l'. map_of (finish p) q \<noteq> Some (Allocations l')"
    using assms(2) map_of_finish_coverage[of p] map_of_finish_remaining[of p] by auto
  with run l schedule_allow_split_finish[OF run] show ?thesis by blast
qed

theorem reserved_period_overwritten_witness:
  "case run_pass [\<lparr>name = ''A'', cost_per_habitant = 3, population = 5\<rparr>]
          (init_pass [(''coverage'', 10)]) of
     Inl e \<Rightarrow> False
   | Inr p \<Rightarrow>
       map_of (p_schedule p) ''coverage'' =
         Some [\<lparr>alloc_name = ''A'', alloc_allocated = 10\<rparr>] \<and>
       (case schedule_allow_split
               [\<lparr>name = ''A'', cost_per_habitant = 3, population = 5\<rparr>]
               [(''coverage'', 10)] of
          Inl e \<Rightarrow> False
        | Inr res \<Rightarrow>
            map_of res ''coverage'' \<noteq>
              Some (Allocations [\<lparr>alloc_name = ''A'', alloc_allocated = 10\<rparr>]))"
proof -
  have q: "''coverage'' \<in> set (map fst [(''coverage'', 10::real)])" by simp
  have run: "run_pass [\<lparr>name = ''A'', cost_per_habitant = 3, population = 5\<rparr>]
          (init_pass [(''coverage'', 10)]) =
        Inr \<lparr>p_remaining = [(''coverage'', 0)],
             p_schedule = [(''coverage'', [\<lparr>alloc_name = ''A'', alloc_allocated = 10\<rparr>])],
             p_coverage = [\<lparr>cov_name = ''A'', total_cost = 15, allocated = 10,
                             coverage_pct = 10 / 15, fully_funded = False\<rparr>]\<rparr>"
    by (simp add: init_pass_def fund_state_def compute_state_cost_def allocate_def Let_def)
  from reserved_period_overwritten[OF q, of "[\<lparr>name = ''A'', cost_per_habitant = 3, population = 5\<rparr>]"]
  show ?thesis unfolding run by auto
qed

lemma rem_of_nonneg:
  assumes "\<forall>b \<in> snd ` set budgets. 0 \<le> b"
  shows "0 \<le> rem_of budgets q"
proof (cases "map_of budgets q")
  case None
  then show ?thesis by (simp add: rem_of_def)
next
  case (Some b)
  then have "(q, b) \<in> set budgets" by (rule map_of_SomeD)
  then have "b \<in> snd ` set budgets" by force
  with assms have "0 \<le> b" by blast
  with Some show ?thesis by (simp add: rem_of_def)
qed

lemma pass_after_total: "\<exists>p. pass_after k states budgets = Inr p"
  unfolding pass_after_def by (rule run_pass_init_total)

lemma pass_after_later:
  assumes "j \<le> k" and "pass_after j states budgets = Inr p"
    and "pass_after k states budgets = Inr p'"
  shows "run_pass (take (k - j) (drop j states)) p = Inr p'"
proof -
  from \<open>j \<le> k\<close> have "take k states = take j states @ take (k - j) (drop j states)"
    by (metis le_add_diff_inverse take_add)
  with assms(2,3) show ?thesis
    by (simp add: pass_after_def run_pass_append)
qed

text \<open>
  Claim C8, with budgets that are not negative. The pass reaches a state after every
  number \<open>k\<close> of entities; there no remaining budget is negative and every recorded
  amount is positive. From the state after \<open>j\<close> entities to the state after \<open>k \<ge> j\<close>
  entities no remaining budget grows, and a period whose remaining budget is zero keeps
  that budget and its allocation list: the later entities get nothing from it.
\<close>

theorem pass_invariants:
  assumes "\<forall>b \<in> snd ` set budgets. 0 \<le> b"
  shows "(\<forall>k. \<exists>p. pass_after k states budgets = Inr p \<and>
            (\<forall>q. 0 \<le> rem_of (p_remaining p) q \<and>
                 (\<forall>a \<in> set (allocs_of (p_schedule p) q). 0 < alloc_allocated a))) \<and>
         (\<forall>j k p p'. j \<le> k \<longrightarrow> pass_after j states budgets = Inr p \<longrightarrow>
            pass_after k states budgets = Inr p' \<longrightarrow>
            (\<forall>q. rem_of (p_remaining p') q \<le> rem_of (p_remaining p) q \<and>
                 (rem_of (p_remaining p) q = 0 \<longrightarrow>
                    rem_of (p_remaining p') q = 0 \<and>
                    allocs_of (p_schedule p') q = allocs_of (p_schedule p) q)))"
proof (intro conjI allI impI)
  fix k
  obtain p where p: "pass_after k states budgets = Inr p"
    using pass_after_total by blast
  then have run: "run_pass (take k states) (init_pass budgets) = Inr p"
    by (simp add: pass_after_def)
  have "0 \<le> rem_of (p_remaining p) q \<and>
        (\<forall>a \<in> set (allocs_of (p_schedule p) q). 0 < alloc_allocated a)" for q
    using run_pass_nonneg[OF run, of q] run_pass_positive[OF run, of q]
      rem_of_nonneg[OF assms, of q] by simp
  with p show "\<exists>p. pass_after k states budgets = Inr p \<and>
            (\<forall>q. 0 \<le> rem_of (p_remaining p) q \<and>
                 (\<forall>a \<in> set (allocs_of (p_schedule p) q). 0 < alloc_allocated a))"
    by blast
next
  fix j k p p' q
  assume "j \<le> k" "pass_after j states budgets = Inr p" "pass_after k states budgets = Inr p'"
  then have run: "run_pass (take (k - j) (drop j states)) p = Inr p'"
    by (rule pass_after_later)
  show "rem_of (p_remaining p') q \<le> rem_of (p_remaining p) q"
    using run by (rule run_pass_mono)
  assume "rem_of (p_remaining p) q = 0"
  with run_pass_exhausted[OF run, of q]
  show "rem_of (p_remaining p') q = 0" "allocs_of (p_schedule p') q = allocs_of (p_schedule p) q"
    by simp_all
qed

theorem pass_invariants_witness:
  "(0::real) \<le> 10 \<and> (1::nat) \<le> 2 \<and>
   (case (pass_after 1
            [\<lparr>name = ''A'', cost_per_habitant = 3, population = 5\<rparr>,
             \<lparr>name = ''B'', cost_per_habitant = 2, population = 4\<rparr>]
            [(''q1'', 10), (''q2'', 10)],
          pass_after 2
            [\<lparr>name = ''A'', cost_per_habitant = 3, population = 5\<rparr>,
             \<lparr>name = ''B'', cost_per_habitant = 2, population = 4\<rparr>]
            [(''q1'', 10), (''q2'', 10)]) of
      (Inr p, Inr p') \<Rightarrow>
        rem_of (p_remaining p) ''q1'' = 0 \<and> rem_of (p_remaining p') ''q1'' = 0 \<and>
        allocs_of (p_schedule p') ''q1'' = allocs_of (p_schedule p) ''q1'' \<and>
        rem_of (p_remaining p') ''q2'' \<le> rem_of (p_remaining p) ''q2'' \<and>
        0 \<le> rem_of (p_remaining p') ''q2''
    | _ \<Rightarrow> False)"
proof -
  let ?S = "[\<lparr>name = ''A'', cost_per_habitant = 3, population = 5\<rparr>,
             \<lparr>name = ''B'', cost_per_habitant = 2, population = 4\<rparr>]"
  let ?B = "[(''q1'', 10::real), (''q2'', 10)]"
  have hyp: "\<forall>b \<in> snd ` set ?B. 0 \<le> b" by simp
  have one: "pass_after 1 ?S ?B =
      Inr \<lparr>p_remaining = [(''q1'', 0), (''q2'', 5)],
           p_schedule = [(''q1'', [\<lparr>alloc_name = ''A'', alloc_allocated = 10\<rparr>]),
                         (''q2'', [\<lparr>alloc_name = ''A'', alloc_allocated = 5\<rparr>])],
           p_coverage = [\<lparr>cov_name = ''A'', total_cost = 15, allocated = 15,
                           coverage_pct = 1, fully_funded = True\<rparr>]\<rparr>"
    by (simp add: pass_after_def init_pass_def fund_state_def compute_state_cost_def
        allocate_def Let_def)
  have two: "pass_after 2 ?S ?B =
      Inr \<lparr>p_remaining = [(''q1'', 0), (''q2'', 0)],
           p_schedule = [(''q1'', [\<lparr>alloc_name = ''A'', alloc_allocated = 10\<rparr>]),
                         (''q2'', [\<lparr>alloc_name = ''A'', alloc_allocated = 5\<rparr>,
                                   \<lparr>alloc_name = ''B'', alloc_allocated = 5\<rparr>])],
           p_coverage = [\<lparr>cov_name = ''A'', total_cost = 15, allocated = 15,
                           coverage_pct = 1, fully_funded = True\<rparr>,
                         \<lparr>cov_name = ''B'', total_cost = 8, allocated = 5,
                           coverage_pct = 5 / 8, fully_funded = False\<rparr>]\<rparr>"
    by (simp add: pass_after_def init_pass_def fund_state_def compute_state_cost_def
        allocate_def Let_def)
  from pass_invariants[OF hyp, of ?S] one two
  show ?thesis by (simp add: rem_of_def allocs_of_def)
qed

section \<open>Ranking: sorting and numbering\<close>



lemma length_sorted_reverse [simp]: "length (sorted_reverse key xs) = length xs"
  by (simp add: sorted_reverse_def)





lemma length_assign_ranks [simp]: "length (assign_ranks rs) = length rs"
  by (simp add: assign_ranks_def del: upt_Suc)




lemma length_rank_entries [simp]: "length (rank_entries result) = length result"
  by (simp add: rank_entries_def)


section \<open>Ranking: normalisation, closeness, default weights\<close>












section \<open>Ranking: errors and completion\<close>

lemma collect_map:
  "(\<And>x. x \<in> set xs \<Longrightarrow> f x = Inr (g x)) \<Longrightarrow> collect f xs = Inr (map g xs)"
  by (induction xs) simp_all

lemma collect_total:
  "(\<And>x. x \<in> set xs \<Longrightarrow> \<exists>y. f x = Inr y) \<Longrightarrow>
   \<exists>ys. collect f xs = Inr ys \<and> length ys = length xs"
proof (induction xs)
  case Nil
  then show ?case by simp
next
  case (Cons x xs)
  from Cons.prems obtain y where y: "f x = Inr y" by auto
  from Cons.IH Cons.prems obtain ys where "collect f xs = Inr ys" "length ys = length xs"
    by auto
  with y show ?case by simp
qed

lemma check_criteria_ok:
  "\<forall>c \<in> set cs. weights c \<noteq> None \<and> flags c \<noteq> None \<Longrightarrow>
   check_criteria weights flags cs = Inr ()"
  by (induction cs) simp_all


lemma check_state_ok: "\<forall>c \<in> set cs. s c \<noteq> None \<Longrightarrow> check_state s cs = Inr ()"
  by (induction cs) simp_all


lemma check_states_ok:
  "\<forall>s \<in> set ss. \<forall>c \<in> set cs. s c \<noteq> None \<Longrightarrow> check_states ss cs = Inr ()"
  by (induction ss) (simp_all add: check_state_ok)


lemma entity_names_ok:
  assumes "\<forall>s \<in> set states. s ''name'' \<noteq> None"
  shows "entity_names states = Inr (map (\<lambda>s. the (s ''name'')) states)"
  unfolding entity_names_def using assms
  by (intro collect_map) (auto simp: subscript_def)

lemma build_matrix_ok:
  assumes "\<forall>s \<in> set states. \<forall>c \<in> set cs. \<exists>x. s c = Some (Num x)"
  shows "\<exists>X. build_matrix states cs = Inr X"
proof -
  have "collect (\<lambda>c. case subscript s c of Inl e \<Rightarrow> Inl e | Inr v \<Rightarrow> py_float v) cs =
        Inr (map (\<lambda>c. case s c of Some (Num x) \<Rightarrow> x | _ \<Rightarrow> 0) cs)"
    if "s \<in> set states" for s
    using that assms by (intro collect_map) (fastforce simp: subscript_def)
  then have "build_matrix states cs =
      Inr (map (\<lambda>s. map (\<lambda>c. case s c of Some (Num x) \<Rightarrow> x | _ \<Rightarrow> 0) cs) states)"
    unfolding build_matrix_def by (rule collect_map)
  then show ?thesis by blast
qed

lemma weight_vector:
  assumes "\<forall>c \<in> set cs. weights c \<noteq> None"
  shows "collect (subscript weights) cs =
         Inr (map (\<lambda>c. case weights c of None \<Rightarrow> 0 | Some w \<Rightarrow> w) cs)"
  using assms by (intro collect_map) (auto simp: subscript_def)

lemma normalized_weights_cases:
  assumes "\<forall>c \<in> set cs. weights c \<noteq> None"
  shows "normalized_weights weights cs =
     (if total_weight weights cs \<le> 0 then Inl NonPositiveWeightSum
      else Inr (map (\<lambda>w. w / total_weight weights cs)
                 (map (\<lambda>c. case weights c of None \<Rightarrow> 0 | Some w \<Rightarrow> w) cs)))"
  by (simp add: normalized_weights_def weight_vector[OF assms] total_weight_def Let_def)

lemma py_max_ok: "xs \<noteq> [] \<Longrightarrow> \<exists>y. py_max xs = Inr y"
  by (cases xs) simp_all

lemma py_min_ok: "xs \<noteq> [] \<Longrightarrow> \<exists>y. py_min xs = Inr y"
  by (cases xs) simp_all

lemma ideal_pair_ok:
  assumes "flags (cs ! j) \<noteq> None" and "0 < n"
  shows "\<exists>y. ideal_pair flags cs V n j = Inr y"
proof -
  from assms(2) have ne: "map (\<lambda>i. V ! i ! j) [0..<n] \<noteq> []" by simp
  from py_max_ok[OF ne] obtain hi where hi: "py_max (map (\<lambda>i. V ! i ! j) [0..<n]) = Inr hi" ..
  from py_min_ok[OF ne] obtain lo where lo: "py_min (map (\<lambda>i. V ! i ! j) [0..<n]) = Inr lo" ..
  from assms(1) obtain b where "flags (cs ! j) = Some b" by auto
  with hi lo show ?thesis
    by (cases b) (simp_all add: ideal_pair_def subscript_def Let_def)
qed

lemma ideals_ok:
  assumes "\<forall>c \<in> set cs. flags c \<noteq> None" and "0 < n"
  shows "\<exists>ap am. ideals flags cs V n (length cs) = Inr (ap, am)"
proof -
  have "\<exists>y. ideal_pair flags cs V n j = Inr y" if "j \<in> set [0..<length cs]" for j
    using that assms by (intro ideal_pair_ok) auto
  then have "\<exists>A. collect (ideal_pair flags cs V n) [0..<length cs] = Inr A \<and>
               length A = length [0..<length cs]"
    by (rule collect_total)
  then show ?thesis by (auto simp: ideals_def)
qed

lemma make_entries_ok:
  assumes "\<forall>s \<in> set states. s ''score'' \<noteq> None \<and> s ''cost_per_habitant'' \<noteq> None \<and>
             s ''population'' \<noteq> None"
  shows "\<exists>result. collect (make_entry states names closeness) [0..<length states] = Inr result \<and>
           length result = length states"
proof -
  have "\<exists>y. make_entry states names closeness i = Inr y" if "i \<in> set [0..<length states]" for i
  proof -
    from that have "states ! i \<in> set states" by simp
    with assms show ?thesis by (auto simp: make_entry_def subscript_def)
  qed
  then have "\<exists>result. collect (make_entry states names closeness) [0..<length states] =
                 Inr result \<and> length result = length [0..<length states]"
    by (rule collect_total)
  then show ?thesis by simp
qed

lemma documented_numeric:
  assumes "documented_input states cs" and "s \<in> set states" and "c \<in> set cs"
    and "s c \<noteq> None"
  shows "\<exists>x. s c = Some (Num x)"
proof -
  from assms(1,2) have "list_all (\<lambda>c. case s c of Some (Str x) \<Rightarrow> False | _ \<Rightarrow> True) cs"
    by (simp add: documented_input_def documented_entity_def list_all_iff)
  with assms(3) have "case s c of Some (Str x) \<Rightarrow> False | _ \<Rightarrow> True"
    by (simp add: list_all_iff)
  with assms(4) show ?thesis by (auto split: option.splits pyval.splits)
qed

lemma topsis_result_ok:
  assumes doc: "documented_input states cs"
    and ok: "\<not> validation_condition states wa fa cs"
  shows "\<exists>result. topsis_result states wa fa cs = Inr result \<and> length result = length states"
proof -
  let ?w = "resolve_weights wa" and ?f = "resolve_flags fa"
  from ok have cw: "\<forall>c \<in> set cs. ?w c \<noteq> None" and cf: "\<forall>c \<in> set cs. ?f c \<noteq> None"
    and cv: "\<forall>s \<in> set states. \<forall>c \<in> set cs. s c \<noteq> None"
    and tw: "\<not> total_weight ?w cs \<le> 0"
    by (auto simp: validation_condition_def list_ex_iff)
  from doc have ne: "0 < length states"
    and fields: "\<forall>s \<in> set states. s ''name'' \<noteq> None"
      "\<forall>s \<in> set states. s ''score'' \<noteq> None \<and> s ''cost_per_habitant'' \<noteq> None \<and>
             s ''population'' \<noteq> None"
    by (auto simp: documented_input_def documented_entity_def list_all_iff)
  have 1: "check_criteria ?w ?f cs = Inr ()"
    using cw cf by (intro check_criteria_ok) auto
  have 2: "check_states states cs = Inr ()"
    using cv by (intro check_states_ok) auto
  have 3: "entity_names states = Inr (map (\<lambda>s. the (s ''name'')) states)"
    using fields(1) by (rule entity_names_ok)
  have "\<forall>s \<in> set states. \<forall>c \<in> set cs. \<exists>x. s c = Some (Num x)"
    using documented_numeric[OF doc] cv by blast
  then obtain X where 4: "build_matrix states cs = Inr X"
    using build_matrix_ok by blast
  from tw obtain wv where 5: "normalized_weights ?w cs = Inr wv"
    by (simp add: normalized_weights_cases[OF cw])
  let ?V = "weigh (normalized_matrix X (length states) (length cs)) wv (length states) (length cs)"
  from ideals_ok[OF cf ne, of ?V] obtain ap am where
    6: "ideals ?f cs ?V (length states) (length cs) = Inr (ap, am)" by blast
  let ?cl = "closeness_list (length states) (length cs) ?V ap am"
  from make_entries_ok[OF fields(2), of "map (\<lambda>s. the (s ''name'')) states" ?cl]
  obtain result where
    7: "collect (make_entry states (map (\<lambda>s. the (s ''name'')) states) ?cl) [0..<length states] =
        Inr result" and len: "length result = length states" by blast
  have "topsis_result states wa fa cs = Inr result"
    unfolding topsis_result_def Let_def by (simp add: 1 2 3 4 5 6 7)
  with len show ?thesis by blast
qed


lemma topsis_rank_states_Inr:
  "topsis_ranked states wa fa cs = Inr rs \<Longrightarrow> topsis_rank_states states wa fa cs = Inr None"
  by (simp add: topsis_rank_states_def)

lemma topsis_ranked_ok:
  assumes "documented_input states cs" and "\<not> validation_condition states wa fa cs"
  shows "\<exists>rs. topsis_ranked states wa fa cs = Inr rs \<and> length rs = length states"
proof -
  from topsis_result_ok[OF assms] obtain result where
    "topsis_result states wa fa cs = Inr result" "length result = length states" by blast
  then show ?thesis by (simp add: topsis_ranked_def)
qed

lemma default_total_weight: "total_weight default_weights default_criteria_order = 1"
  by (simp add: total_weight_def default_weights_def default_criteria_order_def)

lemma example_documented: "documented_input example_states default_criteria_order"
  by (simp add: documented_input_def documented_entity_def example_states_def
      example_entity_def default_criteria_order_def)

lemma example_valid: "\<not> validation_condition example_states None None default_criteria_order"
  by (simp add: validation_condition_def resolve_weights_def resolve_flags_def
      default_total_weight)
     (simp add: default_weights_def default_benefit_flags_def default_criteria_order_def
      example_states_def example_entity_def)

text \<open>
  Claim C1 asks for the ranked list as the return value. On the entities of the example
  run, with the default weights, flags and criteria, the function raises nothing, builds
  the list \<open>result_sorted\<close> of five entries, and returns \<^verbatim>\<open>None\<close>. No call
  returns a list.
\<close>

theorem example_run_returns_none:
  "topsis_rank_states example_states None None default_criteria_order = Inr None \<and>
   (case topsis_ranked example_states None None default_criteria_order of
      Inl e \<Rightarrow> False
    | Inr result_sorted \<Rightarrow> length result_sorted = 5) \<and>
   (\<forall>states wa fa cs rs. topsis_rank_states states wa fa cs \<noteq> Inr (Some rs))"
proof -
  have never: "topsis_rank_states states wa fa cs \<noteq> Inr (Some rs)" for states wa fa cs rs
    by (simp add: topsis_rank_states_def split: sum.splits)
  from topsis_ranked_ok[OF example_documented example_valid] obtain rs where
    rs: "topsis_ranked example_states None None default_criteria_order = Inr rs"
      "length rs = length example_states" by blast
  from rs(1) have "topsis_rank_states example_states None None default_criteria_order = Inr None"
    by (rule topsis_rank_states_Inr)
  with rs never show ?thesis by (simp add: example_states_def)
qed




text \<open>
  Claim C9. A call without weights is the call with the weights 0.6 for \<^verbatim>\<open>score\<close>,
  0.3 for \<^verbatim>\<open>cost_per_habitant\<close> and 0.1 for \<^verbatim>\<open>population\<close>. Under the default
  criteria order these are the normalised weights as well, and they differ from the
  weights 0.6, 0.4 and 0.0 that the docstring names.
\<close>

theorem default_weighting:
  "topsis_rank_states states None fa cs =
     topsis_rank_states states
       (Some [''score'' \<mapsto> 6 / 10, ''cost_per_habitant'' \<mapsto> 3 / 10, ''population'' \<mapsto> 1 / 10])
       fa cs \<and>
   topsis_ranked states None fa cs =
     topsis_ranked states
       (Some [''score'' \<mapsto> 6 / 10, ''cost_per_habitant'' \<mapsto> 3 / 10, ''population'' \<mapsto> 1 / 10])
       fa cs \<and>
   normalized_weights (resolve_weights None) default_criteria_order =
     Inr [6 / 10, 3 / 10, 1 / 10] \<and>
   normalized_weights (resolve_weights None) default_criteria_order \<noteq>
     normalized_weights
       [''score'' \<mapsto> 6 / 10, ''cost_per_habitant'' \<mapsto> 4 / 10, ''population'' \<mapsto> 0]
       default_criteria_order"
proof -
  have w: "resolve_weights None =
      resolve_weights
        (Some [''score'' \<mapsto> 6 / 10, ''cost_per_habitant'' \<mapsto> 3 / 10, ''population'' \<mapsto> 1 / 10])"
    by (simp add: resolve_weights_def default_weights_def)
  have r: "topsis_result states None fa cs =
      topsis_result states
        (Some [''score'' \<mapsto> 6 / 10, ''cost_per_habitant'' \<mapsto> 3 / 10, ''population'' \<mapsto> 1 / 10])
        fa cs"
    unfolding topsis_result_def w ..
  have n: "normalized_weights (resolve_weights None) default_criteria_order =
      Inr [6 / 10, 3 / 10, 1 / 10]"
    by (simp add: normalized_weights_def resolve_weights_def default_weights_def
        default_criteria_order_def subscript_def)
  have d: "normalized_weights
       [''score'' \<mapsto> 6 / 10, ''cost_per_habitant'' \<mapsto> 4 / 10, ''population'' \<mapsto> 0]
       default_criteria_order = Inr [6 / 10, 4 / 10, 0]"
    by (simp add: normalized_weights_def default_criteria_order_def subscript_def)
  from r n d show ?thesis
    by (simp add: topsis_rank_states_def topsis_ranked_def)
qed

section \<open>Evaluating the rounding\<close>












section \<open>Double precision: where the exact statements fail\<close>

lemma round_half_even_int: "round_half_even (of_int k) = k"
  by (simp add: round_half_even_def)

lemma upt_0_1: "[0..<1] = [0]"
  by simp























end
